theory Spec2Isabelle
  imports Main
begin

section \<open>Value trees and the path helpers\<close>

text \<open>
  JavaScript values as they occur in the form state. A scalar is a leaf; an object is a
  list of key/value entries in insertion order (the order \<open>Object.keys\<close> iterates in).
  Numbers are restricted to integers. Following the data model of the specification, a
  container is a mapping from path segments to values; an array is the mapping whose
  segments are \<open>0\<close>, \<open>1\<close>, ...
\<close>

datatype scalar = SUndefined | SNull | SBool bool | SNum int | SStr string

datatype tree = Leaf scalar | Node "(string \<times> tree) list"

text \<open>\<open>const EMPTY_OBJ = {}\<close> (Form.tsx, line 8).\<close>

definition EMPTY_OBJ :: tree where
  "EMPTY_OBJ = Node []"

text \<open>
  Modelled from the spec: the module \<open>helpers/operations\<close> (\<open>get\<close>, \<open>set\<close>) is imported
  by Form.tsx and its source is missing. A field path is a join of segments with dots
  (\<open>address.street\<close>, \<open>items.2.name\<close>); \<open>segments\<close> splits a path at its dots.
\<close>

fun segments :: "string \<Rightarrow> string list" where
  "segments [] = [[]]"
| "segments (c # cs) =
     (if c = CHR ''.'' then [] # segments cs
      else (case segments cs of [] \<Rightarrow> [[c]] | s # ss \<Rightarrow> (c # s) # ss))"

text \<open>
  Modelled from the spec: the join of segments that makes a field path (the paths that the
  missing \<open>deriveKeys\<close> produces are such joins).
\<close>

fun join_path :: "string list \<Rightarrow> string" where
  "join_path [] = []"
| "join_path [s] = s"
| "join_path (s # t # ts) = s @ ''.'' @ join_path (t # ts)"

text \<open>
  Modelled from the spec: the walk of the missing \<open>get\<close> along the segments of a path; a
  missing intermediate segment yields \<open>undefined\<close> (here \<open>None\<close>), it never fails.
\<close>

fun get_segs :: "tree \<Rightarrow> string list \<Rightarrow> tree option" where
  "get_segs t [] = Some t"
| "get_segs (Leaf _) (s # ss) = None"
| "get_segs (Node kvs) (s # ss) =
     (case map_of kvs s of None \<Rightarrow> None | Some child \<Rightarrow> get_segs child ss)"

text \<open>
  Modelled from the spec: \<open>get(tree, path)\<close> of the missing \<open>helpers/operations\<close>.
\<close>

definition get :: "tree \<Rightarrow> string \<Rightarrow> tree option" where
  "get t path = get_segs t (segments path)"

text \<open>
  Modelled from the spec: the missing \<open>set\<close> on one container: the entry of the key is
  replaced, or added at the end; the sibling entries are kept as they are.
\<close>

fun put_entry :: "string \<Rightarrow> tree \<Rightarrow> (string \<times> tree) list \<Rightarrow> (string \<times> tree) list" where
  "put_entry k v [] = [(k, v)]"
| "put_entry k v ((k', v') # kvs) =
     (if k' = k then (k, v) # kvs else (k', v') # put_entry k v kvs)"

text \<open>
  Modelled from the spec: the missing \<open>set\<close> along the segments of a path: every ancestor
  along the path is rebuilt, intermediate containers are created as needed.
\<close>

fun set_segs :: "tree \<Rightarrow> string list \<Rightarrow> tree \<Rightarrow> tree" where
  "set_segs t [] v = v"
| "set_segs (Leaf _) (s # ss) v = Node [(s, set_segs (Node []) ss v)]"
| "set_segs (Node kvs) (s # ss) v =
     Node (put_entry s
       (set_segs (case map_of kvs s of None \<Rightarrow> Node [] | Some child \<Rightarrow> child) ss v) kvs)"

text \<open>
  Modelled from the spec: \<open>set(tree, path, value)\<close> of the missing \<open>helpers/operations\<close>
  returns a new tree with the value placed at the path (named \<open>set_tree\<close> here).
\<close>

definition set_tree :: "tree \<Rightarrow> string \<Rightarrow> tree \<Rightarrow> tree" where
  "set_tree t path v = set_segs t (segments path) v"

text \<open>
  Modelled from the spec: \<open>helpers/deriveKeys\<close> is imported by Form.tsx and its source is
  missing. The leaf paths of a value that sits at the path \<open>parentKey\<close>, depth first; a
  container without entries has no leaf.
\<close>

fun deriveKeys_under :: "string \<Rightarrow> tree \<Rightarrow> string list" where
  "deriveKeys_under parentKey (Leaf _) = [parentKey]"
| "deriveKeys_under parentKey (Node kvs) =
     concat (map (\<lambda>(k, v). deriveKeys_under (parentKey @ ''.'' @ k) v) kvs)"

text \<open>
  Modelled from the spec: \<open>deriveKeys(tree)\<close> of the missing \<open>helpers/deriveKeys\<close> produces
  every leaf path of the tree.
\<close>

definition deriveKeys :: "tree \<Rightarrow> string list" where
  "deriveKeys t =
     (case t of Leaf _ \<Rightarrow> []
      | Node kvs \<Rightarrow> concat (map (\<lambda>(k, v). deriveKeys_under k v) kvs))"

text \<open>
  Modelled from the spec: \<open>helpers/deriveInitial\<close> is imported by Form.tsx and its source
  is missing. \<open>deriveInitial(shapeTree, constant)\<close> produces a tree of identical shape with
  the constant at every leaf.
\<close>

fun deriveInitial :: "tree \<Rightarrow> scalar \<Rightarrow> tree" where
  "deriveInitial (Leaf _) c = Leaf c"
| "deriveInitial (Node kvs) c = Node (map (\<lambda>(k, v). (k, deriveInitial v c)) kvs)"

text \<open>Every leaf of the tree holds the given scalar.\<close>

fun all_leaves :: "scalar \<Rightarrow> tree \<Rightarrow> bool" where
  "all_leaves c (Leaf x) = (x = c)"
| "all_leaves c (Node kvs) = list_all (\<lambda>(k, v). all_leaves c v) kvs"

section \<open>The notification bus\<close>

text \<open>
  Modelled from the spec: \<open>context/emitter\<close> is imported by Form.tsx and its source is
  missing. A subscription registers a listener on a literal field path or on the sentinel
  for all changes.
\<close>

datatype interest = OnPath string | OnAll

text \<open>
  Modelled from the spec: whether a publish of the paths concerns a subscription of the
  missing \<open>context/emitter\<close>.
\<close>

fun interested :: "string list \<Rightarrow> interest \<Rightarrow> bool" where
  "interested paths OnAll = True"
| "interested paths (OnPath p) = (p \<in> set paths)"

text \<open>
  Modelled from the spec: \<open>emit\<close> of the missing \<open>context/emitter\<close>. Publishing a set of
  paths invokes every listener whose registered path is among them, and every listener for
  all changes, once per publish. Form.tsx calls \<open>emit\<close> with one path or with an array of
  paths; the model takes the list.
\<close>

definition emit :: "(interest \<times> 'l) list \<Rightarrow> string list \<Rightarrow> 'l list" where
  "emit registry paths = remdups (map snd (filter (\<lambda>(i, l). interested paths i) registry))"

section \<open>Configuration, state and effects of the Form component\<close>

text \<open>
  The caller-supplied callbacks are modelled by what the component can observe of them.
  \<open>onSubmit\<close> receives the values and a bag \<open>{ setErrors, setFormError }\<close>: it makes some
  calls on the bag and then returns a value, returns a promise that resolves or rejects,
  throws, or returns a promise that never settles. \<open>onSuccess\<close> receives the result and a
  bag \<open>{ resetForm }\<close>, \<open>onError\<close> the error and a bag \<open>{ setErrors, setFormError }\<close>; a
  hook makes some calls on its bag and returns, or throws (\<open>Some\<close> of the exception).
  \<open>validate\<close> returns an object or \<open>undefined\<close> (\<open>None\<close>).
\<close>

datatype error_bag_call = CallSetErrors tree | CallSetFormError string

datatype success_bag_call = CallResetForm

datatype submit_outcome = Returns tree | Resolves tree | Throws tree | Rejects tree | NeverSettles

text \<open>\<open>FormOptions\<close> (Form.tsx, lines 38-52); an optional property is an \<open>option\<close>.\<close>

record config =
  enableReinitialize :: "bool option"
  initialErrors :: "tree option"
  initialValues :: "tree option"
  onError :: "(tree \<Rightarrow> error_bag_call list \<times> tree option) option"
  onSuccess :: "(tree \<Rightarrow> success_bag_call list \<times> tree option) option"
  onSubmit :: "tree \<Rightarrow> error_bag_call list \<times> submit_outcome"
  shouldSubmitWhenInvalid :: "bool option"
  validate :: "(tree \<Rightarrow> tree option) option"
  validateOnBlur :: "bool option"
  validateOnChange :: "bool option"

text \<open>Truthiness of an optional boolean: \<open>undefined\<close> and \<open>false\<close> are falsy.\<close>

fun truthy :: "bool option \<Rightarrow> bool" where
  "truthy None = False"
| "truthy (Some b) = b"

text \<open>
  The state of one form instance: the five \<open>useState\<close> slots (lines 69-80) and the
  \<open>isDirty\<close> ref (line 82). The field for \<open>values\<close> is named \<open>values_st\<close>.
\<close>

record form_state =
  values_st :: tree
  touched :: tree
  errors :: tree
  isSubmitting :: bool
  formError :: "string option"
  isDirty :: bool

text \<open>
  What a function of the component does is a list of effects, in the order of its
  statements: calls of the state setters, the assignment to \<open>isDirty.current\<close>, calls of
  \<open>emit\<close>, of \<open>e.preventDefault\<close> and of the caller's callbacks. \<open>Enter f\<close> records that the
  function \<open>f\<close> of the component was called. \<open>Unhandled x\<close> records that the promise returned
  by \<open>handleSubmit\<close> rejects with \<open>x\<close>.
\<close>

datatype fn = FnValidateForm | FnResetForm | FnHandleSubmit | FnSubmit | FnChange
  | FnSetFieldError | FnSetFieldTouched | FnSetFormErr

datatype effect =
    Enter fn
  | SetValues tree
  | SetTouched tree
  | SetErrors tree
  | SetSubmitting bool
  | SetFormError string
  | SetDirty bool
  | Emit "string list"
  | PreventDefault
  | CallValidate tree
  | CallOnSubmit tree
  | CallOnSuccess tree
  | CallOnError tree
  | Unhandled tree

text \<open>
  A state setter replaces its slot; the other effects leave the state as it is. A function
  of the component reads the state of the render that created it (its closure, \<open>c\<close> below)
  and its effects are applied to the live state with \<open>exec\<close>.
\<close>

fun apply_effect :: "form_state \<Rightarrow> effect \<Rightarrow> form_state" where
  "apply_effect st (SetValues v) = st\<lparr>values_st := v\<rparr>"
| "apply_effect st (SetTouched t) = st\<lparr>touched := t\<rparr>"
| "apply_effect st (SetErrors e) = st\<lparr>errors := e\<rparr>"
| "apply_effect st (SetSubmitting b) = st\<lparr>isSubmitting := b\<rparr>"
| "apply_effect st (SetFormError m) = st\<lparr>formError := Some m\<rparr>"
| "apply_effect st (SetDirty b) = st\<lparr>isDirty := b\<rparr>"
| "apply_effect st _ = st"

definition exec :: "form_state \<Rightarrow> effect list \<Rightarrow> form_state" where
  "exec st effs = foldl apply_effect st effs"

text \<open>The arguments of the \<open>emit\<close> calls among the effects, and the listeners they invoke.\<close>

fun published :: "effect list \<Rightarrow> string list list" where
  "published [] = []"
| "published (Emit paths # effs) = paths # published effs"
| "published (_ # effs) = published effs"

definition notifications :: "(interest \<times> 'l) list \<Rightarrow> effect list \<Rightarrow> 'l list" where
  "notifications registry effs = concat (map (emit registry) (published effs))"

text \<open>The initial state (lines 69-82).\<close>

definition init :: "config \<Rightarrow> form_state" where
  "init cfg =
     \<lparr> values_st = (case initialValues cfg of None \<Rightarrow> EMPTY_OBJ | Some iv \<Rightarrow> iv),
       touched = (case initialErrors cfg of None \<Rightarrow> EMPTY_OBJ
                  | Some ie \<Rightarrow> deriveInitial ie (SBool True)),
       errors = (case initialErrors cfg of None \<Rightarrow> EMPTY_OBJ | Some ie \<Rightarrow> ie),
       isSubmitting = False,
       formError = None,
       isDirty = False \<rparr>"

section \<open>The functions of the component\<close>

text \<open>\<open>validateForm\<close> (lines 84-95): the error tree it returns, and its effects.\<close>

definition validationErrors :: "config \<Rightarrow> form_state \<Rightarrow> tree" where
  "validationErrors cfg c =
     (case validate cfg of None \<Rightarrow> EMPTY_OBJ
      | Some f \<Rightarrow> (case f (values_st c) of None \<Rightarrow> EMPTY_OBJ | Some t \<Rightarrow> t))"

definition validateForm :: "config \<Rightarrow> form_state \<Rightarrow> tree \<times> effect list" where
  "validateForm cfg c =
     (validationErrors cfg c,
      [Enter FnValidateForm]
      @ (case validate cfg of None \<Rightarrow> [] | Some f \<Rightarrow> [CallValidate (values_st c)])
      @ [SetErrors (validationErrors cfg c),
         Emit (deriveKeys (validationErrors cfg c) @ deriveKeys (errors c))])"

text \<open>\<open>resetForm\<close> (lines 97-111).\<close>

definition resetForm :: "config \<Rightarrow> form_state \<Rightarrow> effect list" where
  "resetForm cfg c =
     [Enter FnResetForm,
      SetDirty False,
      SetValues (case initialValues cfg of None \<Rightarrow> EMPTY_OBJ | Some iv \<Rightarrow> iv)]
     @ (case initialErrors cfg of None \<Rightarrow> []
        | Some ie \<Rightarrow> [SetTouched (deriveInitial ie (SBool True)), SetErrors ie])
     @ [Emit (deriveKeys (case initialValues cfg of None \<Rightarrow> EMPTY_OBJ | Some iv \<Rightarrow> iv)
              @ deriveKeys (values_st c))]"

text \<open>\<open>setFormErr\<close> (lines 121-124), and the calls a callback makes on its bag.\<close>

definition setFormErr :: "string \<Rightarrow> effect list" where
  "setFormErr err = [Enter FnSetFormErr, SetFormError err, Emit [''f'']]"

fun error_bag :: "error_bag_call \<Rightarrow> effect list" where
  "error_bag (CallSetErrors e) = [SetErrors e]"
| "error_bag (CallSetFormError err) = setFormErr err"

fun success_bag :: "config \<Rightarrow> form_state \<Rightarrow> success_bag_call \<Rightarrow> effect list" where
  "success_bag cfg c CallResetForm = resetForm cfg c"

text \<open>
  \<open>handleSubmit\<close> (lines 113-139) up to the point where it returns: the effects of its
  synchronous part, and the outcome of \<open>onSubmit\<close> that the promise chain waits for
  (\<open>None\<close> when the attempt ended blocked). The executor of \<open>new Promise\<close> runs at once, so
  \<open>onSubmit\<close> is called before \<open>handleSubmit\<close> returns.
\<close>

definition handleSubmit :: "config \<Rightarrow> form_state \<Rightarrow> effect list \<times> submit_outcome option" where
  "handleSubmit cfg c =
     (let fieldErrors = fst (validateForm cfg c);
          validated = [Enter FnHandleSubmit] @ snd (validateForm cfg c)
                      @ [SetTouched (deriveInitial fieldErrors (SBool True))]
      in if \<not> truthy (shouldSubmitWhenInvalid cfg) \<and> length (deriveKeys fieldErrors) > 0
         then (validated @ [SetSubmitting False, Emit [''s'']], None)
         else (validated @ [CallOnSubmit (values_st c)]
                 @ concat (map error_bag (fst (onSubmit cfg (values_st c)))),
               Some (snd (onSubmit cfg (values_st c)))))"

text \<open>
  The callback of \<open>.catch\<close> (lines 134-138). It ends the chain: when the \<open>onError\<close> hook
  throws, the promise returned by \<open>handleSubmit\<close> rejects.
\<close>

definition catch_callback :: "config \<Rightarrow> tree \<Rightarrow> effect list" where
  "catch_callback cfg e =
     [SetSubmitting False, Emit [''s'']]
     @ (case onError cfg of None \<Rightarrow> []
        | Some hook \<Rightarrow>
            CallOnError e # concat (map error_bag (fst (hook e)))
            @ (case snd (hook e) of None \<Rightarrow> [] | Some x \<Rightarrow> [Unhandled x]))"

text \<open>
  The callback of \<open>.then\<close> (lines 129-133). \<open>.catch\<close> is chained after it, so an exception
  of the \<open>onSuccess\<close> hook runs the callback of \<open>.catch\<close>. The \<open>resetForm\<close> in the bag is the
  one of the render that ran \<open>handleSubmit\<close>.
\<close>

definition then_callback :: "config \<Rightarrow> form_state \<Rightarrow> tree \<Rightarrow> effect list" where
  "then_callback cfg c result =
     [SetSubmitting False, Emit [''s'']]
     @ (case onSuccess cfg of None \<Rightarrow> []
        | Some hook \<Rightarrow>
            CallOnSuccess result # concat (map (success_bag cfg c) (fst (hook result)))
            @ (case snd (hook result) of None \<Rightarrow> [] | Some x \<Rightarrow> catch_callback cfg x))"

text \<open>
  What the promise chain does when the outcome of \<open>onSubmit\<close> is known: a returned value
  and a resolved promise run \<open>.then\<close>, an exception thrown in the executor and a rejected
  promise run \<open>.catch\<close>.
\<close>

fun settle :: "config \<Rightarrow> form_state \<Rightarrow> submit_outcome \<Rightarrow> effect list" where
  "settle cfg c (Returns result) = then_callback cfg c result"
| "settle cfg c (Resolves result) = then_callback cfg c result"
| "settle cfg c (Throws e) = catch_callback cfg e"
| "settle cfg c (Rejects e) = catch_callback cfg e"
| "settle cfg c NeverSettles = []"

text \<open>A whole submission attempt: \<open>handleSubmit\<close> and the promise chain after it.\<close>

definition submission :: "config \<Rightarrow> form_state \<Rightarrow> effect list" where
  "submission cfg c =
     fst (handleSubmit cfg c)
     @ (case snd (handleSubmit cfg c) of None \<Rightarrow> [] | Some outcome \<Rightarrow> settle cfg c outcome)"

text \<open>
  \<open>submit\<close> (lines 141-145). The argument is \<open>None\<close> for a call without an event and
  \<open>Some b\<close> for an event, \<open>b\<close> telling whether it has a \<open>preventDefault\<close>.
\<close>

definition submit :: "bool option \<Rightarrow> effect list" where
  "submit e =
     [Enter FnSubmit] @ (if e = Some True then [PreventDefault] else [])
     @ [SetSubmitting True, Emit [''s'']]"

text \<open>\<open>change\<close> (lines 171-175), handed out as \<open>setFieldValue\<close>.\<close>

definition change :: "form_state \<Rightarrow> string \<Rightarrow> tree \<Rightarrow> effect list" where
  "change c fieldId v =
     [Enter FnChange, SetDirty True, SetValues (set_tree (values_st c) fieldId v), Emit [fieldId]]"

text \<open>\<open>setFieldError\<close> and \<open>setFieldTouched\<close> (lines 197-204).\<close>

definition setFieldError :: "form_state \<Rightarrow> string \<Rightarrow> tree \<Rightarrow> effect list" where
  "setFieldError c fieldId error =
     [Enter FnSetFieldError, SetErrors (set_tree (errors c) fieldId error), Emit [fieldId]]"

definition setFieldTouched :: "form_state \<Rightarrow> string \<Rightarrow> bool option \<Rightarrow> effect list" where
  "setFieldTouched c fieldId v =
     [Enter FnSetFieldTouched,
      SetTouched (set_tree (touched c) fieldId
        (Leaf (SBool (case v of None \<Rightarrow> True | Some b \<Rightarrow> b)))),
      Emit [fieldId]]"

section \<open>The effects after a render\<close>

text \<open>
  \<open>useEffect\<close> runs its callback after the first render and after every render in which
  an entry of its dependency array differs from the previous render's. Objects are compared
  by identity, so an object in a dependency array is represented by the identity of the
  object the slot holds (\<open>refs\<close>). \<open>prev\<close> is the dependency array of the previous render,
  \<open>None\<close> at the first render.
\<close>

datatype dep = DepUndefined | DepBool bool | DepObject nat

record refs =
  values_ref :: nat
  touched_ref :: nat
  initialValues_ref :: nat

definition deps_changed :: "dep list option \<Rightarrow> dep list \<Rightarrow> bool" where
  "deps_changed prev now = (prev \<noteq> Some now)"

text \<open>Lines 147-152: dependency array \<open>[isSubmitting]\<close>.\<close>

definition submitting_deps :: "form_state \<Rightarrow> dep list" where
  "submitting_deps c = [DepBool (isSubmitting c)]"

definition submitting_effect ::
  "config \<Rightarrow> dep list option \<Rightarrow> form_state \<Rightarrow> effect list \<times> submit_outcome option" where
  "submitting_effect cfg prev c =
     (if deps_changed prev (submitting_deps c) \<and> isSubmitting c then handleSubmit cfg c
      else ([], None))"

text \<open>Lines 154-156: dependency array \<open>[initialValues]\<close>.\<close>

definition reinitialize_deps :: "config \<Rightarrow> refs \<Rightarrow> dep list" where
  "reinitialize_deps cfg r =
     [case initialValues cfg of None \<Rightarrow> DepUndefined | Some iv \<Rightarrow> DepObject (initialValues_ref r)]"

definition reinitialize_effect ::
  "config \<Rightarrow> dep list option \<Rightarrow> refs \<Rightarrow> form_state \<Rightarrow> effect list" where
  "reinitialize_effect cfg prev r c =
     (if deps_changed prev (reinitialize_deps cfg r) \<and> truthy (enableReinitialize cfg)
      then resetForm cfg c else [])"

text \<open>
  Lines 158-169: dependency array
  \<open>[validateOnBlur === undefined ? touched : validateOnBlur && touched,
    validateOnChange && values, isDirty.current]\<close>.
\<close>

definition revalidate_deps :: "config \<Rightarrow> refs \<Rightarrow> form_state \<Rightarrow> dep list" where
  "revalidate_deps cfg r c =
     [case validateOnBlur cfg of None \<Rightarrow> DepObject (touched_ref r)
      | Some b \<Rightarrow> if b then DepObject (touched_ref r) else DepBool False,
      case validateOnChange cfg of None \<Rightarrow> DepUndefined
      | Some b \<Rightarrow> if b then DepObject (values_ref r) else DepBool False,
      DepBool (isDirty c)]"

definition revalidate_effect ::
  "config \<Rightarrow> dep list option \<Rightarrow> refs \<Rightarrow> form_state \<Rightarrow> effect list" where
  "revalidate_effect cfg prev r c =
     (if deps_changed prev (revalidate_deps cfg r c)
         \<and> (validateOnBlur cfg = None \<or> truthy (validateOnChange cfg)
              \<or> truthy (validateOnBlur cfg))
         \<and> isDirty c
      then snd (validateForm cfg c) else [])"

section \<open>Observations on effects, and runs of a form instance\<close>

text \<open>The calls of the caller's callbacks among the effects.\<close>

fun calls :: "effect list \<Rightarrow> effect list" where
  "calls [] = []"
| "calls (CallValidate v # effs) = CallValidate v # calls effs"
| "calls (CallOnSubmit v # effs) = CallOnSubmit v # calls effs"
| "calls (CallOnSuccess v # effs) = CallOnSuccess v # calls effs"
| "calls (CallOnError v # effs) = CallOnError v # calls effs"
| "calls (_ # effs) = calls effs"

text \<open>The exceptions with which the promise returned by \<open>handleSubmit\<close> rejects.\<close>

fun unhandled :: "effect list \<Rightarrow> tree list" where
  "unhandled [] = []"
| "unhandled (Unhandled x # effs) = x # unhandled effs"
| "unhandled (_ # effs) = unhandled effs"

text \<open>The path addresses a leaf of the tree.\<close>

definition addresses_leaf :: "tree \<Rightarrow> string \<Rightarrow> bool" where
  "addresses_leaf t path = (case get t path of Some (Leaf x) \<Rightarrow> True | _ \<Rightarrow> False)"

text \<open>
  What can happen to a mounted form: a consumer calls a function of the produced
  interface, an effect runs \<open>handleSubmit\<close>, \<open>resetForm\<close> or \<open>validateForm\<close>, the promise chain
  of an earlier \<open>handleSubmit\<close> (with the state that one had captured) continues, or a
  callback uses its bag. The functions read the live state, the props are those of the
  current render and may differ from step to step.
\<close>

datatype call =
    DoChange string tree
  | DoSetFieldError string tree
  | DoSetFieldTouched string "bool option"
  | DoSubmit "bool option"
  | DoResetForm
  | DoValidateForm
  | DoHandleSubmit
  | DoSettle form_state submit_outcome
  | DoErrorBag error_bag_call

fun perform :: "config \<Rightarrow> form_state \<Rightarrow> call \<Rightarrow> effect list" where
  "perform cfg st (DoChange fieldId v) = change st fieldId v"
| "perform cfg st (DoSetFieldError fieldId error) = setFieldError st fieldId error"
| "perform cfg st (DoSetFieldTouched fieldId v) = setFieldTouched st fieldId v"
| "perform cfg st (DoSubmit e) = submit e"
| "perform cfg st DoResetForm = resetForm cfg st"
| "perform cfg st DoValidateForm = snd (validateForm cfg st)"
| "perform cfg st DoHandleSubmit = fst (handleSubmit cfg st)"
| "perform cfg st (DoSettle c outcome) = settle cfg c outcome"
| "perform cfg st (DoErrorBag b) = error_bag b"

text \<open>A run: the state it reaches and the effects performed so far, oldest first.\<close>

fun step :: "form_state \<times> effect list \<Rightarrow> config \<times> call \<Rightarrow> form_state \<times> effect list" where
  "step (st, history) (cfg, a) = (exec st (perform cfg st a), history @ perform cfg st a)"

definition run :: "config \<Rightarrow> (config \<times> call) list \<Rightarrow> form_state \<times> effect list" where
  "run cfg steps = foldl step (init cfg, []) steps"

section \<open>The scenario of the specification\<close>

text \<open>
  \<open>{ validate: v => (v.age < 0 ? {age: "invalid"} : {}), onSubmit: async () => "ok",
     shouldSubmitWhenInvalid: false }\<close>. The comparison is modelled for a numeric \<open>age\<close>; a
  missing \<open>age\<close> is not below zero.
\<close>

definition age_validate :: "tree \<Rightarrow> tree option" where
  "age_validate v =
     (case get v ''age'' of
        Some (Leaf (SNum n)) \<Rightarrow>
          if n < 0 then Some (Node [(''age'', Leaf (SStr ''invalid''))]) else Some (Node [])
      | _ \<Rightarrow> Some (Node []))"

definition scenario :: config where
  "scenario =
     \<lparr> enableReinitialize = None, initialErrors = None, initialValues = None,
       onError = None, onSuccess = None,
       onSubmit = (\<lambda>v. ([], Resolves (Leaf (SStr ''ok'')))),
       shouldSubmitWhenInvalid = Some False,
       validate = Some age_validate,
       validateOnBlur = None, validateOnChange = None \<rparr>"

text \<open>
  The run of the scenario: \<open>changeField("age", -1)\<close>, the re-validation that the effect
  of lines 158-169 performs after the first edit, \<open>submit()\<close>, and the \<open>handleSubmit\<close> that
  the effect of lines 147-152 performs once \<open>isSubmitting\<close> has become true.
\<close>

definition scenario_run :: "form_state \<times> effect list" where
  "scenario_run =
     run scenario
       [(scenario, DoChange ''age'' (Leaf (SNum (- 1)))),
        (scenario, DoValidateForm),
        (scenario, DoSubmit None),
        (scenario, DoHandleSubmit)]"

text \<open>
  Two more configurations used as concrete instances. \<open>rejecting\<close>: \<open>onSubmit\<close> rejects with
  \<open>"network down"\<close>, the \<open>onError\<close> hook calls \<open>bag.setFormError("network down")\<close> and throws
  the error on. \<open>seeded\<close>: initial values and initial errors are supplied.
\<close>

definition rejecting :: config where
  "rejecting =
     \<lparr> enableReinitialize = None, initialErrors = None, initialValues = None,
       onError = Some (\<lambda>e. ([CallSetFormError ''network down''], Some e)),
       onSuccess = None,
       onSubmit = (\<lambda>v. ([], Rejects (Leaf (SStr ''network down'')))),
       shouldSubmitWhenInvalid = None,
       validate = None,
       validateOnBlur = None, validateOnChange = None \<rparr>"

definition seeded :: config where
  "seeded =
     \<lparr> enableReinitialize = None,
       initialErrors = Some (Node [(''name'', Leaf (SStr ''required''))]),
       initialValues = Some (Node [(''name'', Leaf (SStr ''anonymous''))]),
       onError = None, onSuccess = None,
       onSubmit = (\<lambda>v. ([], Resolves (Leaf (SStr ''ok'')))),
       shouldSubmitWhenInvalid = None,
       validate = None,
       validateOnBlur = None, validateOnChange = None \<rparr>"

text \<open>
  What a step of a run calls, read off the step itself. A step calls \<open>change\<close> when a
  consumer calls \<open>setFieldValue\<close>. A step calls \<open>resetForm\<close> when a consumer or the effect of
  \<open>enableReinitialize\<close> calls it, or when the promise chain continues with a result and the
  \<open>onSuccess\<close> hook calls the \<open>resetForm\<close> of its bag.
\<close>

fun calls_change :: "call \<Rightarrow> bool" where
  "calls_change (DoChange fieldId v) = True"
| "calls_change _ = False"

definition hook_resets :: "config \<Rightarrow> tree \<Rightarrow> bool" where
  "hook_resets cfg result =
     (case onSuccess cfg of None \<Rightarrow> False | Some hook \<Rightarrow> fst (hook result) \<noteq> [])"

fun calls_resetForm :: "config \<Rightarrow> call \<Rightarrow> bool" where
  "calls_resetForm cfg DoResetForm = True"
| "calls_resetForm cfg (DoSettle c (Returns result)) = hook_resets cfg result"
| "calls_resetForm cfg (DoSettle c (Resolves result)) = hook_resets cfg result"
| "calls_resetForm cfg _ = False"

section \<open>Basic facts\<close>

lemma exec_Nil: "exec st [] = st"
  by (simp add: exec_def)

lemma exec_Cons: "exec st (e # effs) = exec (apply_effect st e) effs"
  by (simp add: exec_def)

lemma exec_append: "exec st (xs @ ys) = exec (exec st xs) ys"
  by (simp add: exec_def)

lemma published_append: "published (xs @ ys) = published xs @ published ys"
  by (induction xs rule: published.induct) simp_all

lemma calls_append: "calls (xs @ ys) = calls xs @ calls ys"
  by (induction xs rule: calls.induct) simp_all

lemma unhandled_append: "unhandled (xs @ ys) = unhandled xs @ unhandled ys"
  by (induction xs rule: unhandled.induct) simp_all

section \<open>The store operations\<close>

text \<open>
  C4. \<open>changeField(p, v)\<close> (\<open>change\<close>, handed out as \<open>setFieldValue\<close>) sets \<open>isDirty\<close> to true,
  replaces \<open>values\<close> with \<open>set(values, p, v)\<close>, leaves the other slots alone, and calls \<open>emit\<close>
  once, with the single path \<open>p\<close>: for every registry the listeners notified are those
  that a publish of \<open>p\<close> alone invokes. A listener registered on a path is notified (once)
  when that path is \<open>p\<close> and is not notified otherwise.
\<close>

theorem change_effects:
  "isDirty (exec st (change st fieldId v)) = True
   \<and> values_st (exec st (change st fieldId v)) = set_tree (values_st st) fieldId v
   \<and> touched (exec st (change st fieldId v)) = touched st
   \<and> errors (exec st (change st fieldId v)) = errors st
   \<and> isSubmitting (exec st (change st fieldId v)) = isSubmitting st
   \<and> formError (exec st (change st fieldId v)) = formError st
   \<and> published (change st fieldId v) = [[fieldId]]
   \<and> notifications registry (change st fieldId v) = emit registry [fieldId]
   \<and> notifications [(OnPath q, l)] (change st fieldId v) = (if q = fieldId then [l] else [])"
proof -
  have emitted: "published (change st fieldId v) = [[fieldId]]"
    by (simp add: change_def)
  have state: "exec st (change st fieldId v) =
      st\<lparr>isDirty := True, values_st := set_tree (values_st st) fieldId v\<rparr>"
    by (simp add: change_def exec_Cons exec_Nil)
  have listeners: "notifications registry (change st fieldId v) = emit registry [fieldId]"
    by (simp add: notifications_def emitted)
  have one: "notifications [(OnPath q, l)] (change st fieldId v) =
      (if q = fieldId then [l] else [])"
    by (simp add: notifications_def emitted emit_def)
  show ?thesis
    by (simp add: state emitted listeners one)
qed

text \<open>
  C5. \<open>validateForm\<close> calls the configured \<open>validate\<close> on the current values (and calls
  nothing when none is configured), returns its result, or the empty tree when \<open>validate\<close>
  is absent or returns nothing, stores that tree as \<open>errors\<close> and changes no other slot,
  and calls \<open>emit\<close> once with the leaf paths of the new error tree followed by those of the
  previous one.
\<close>

theorem validateForm_effects:
  "fst (validateForm cfg st) =
     (case validate cfg of None \<Rightarrow> EMPTY_OBJ
      | Some f \<Rightarrow> (case f (values_st st) of None \<Rightarrow> EMPTY_OBJ | Some t \<Rightarrow> t))
   \<and> calls (snd (validateForm cfg st)) =
     (case validate cfg of None \<Rightarrow> [] | Some f \<Rightarrow> [CallValidate (values_st st)])
   \<and> errors (exec st (snd (validateForm cfg st))) = fst (validateForm cfg st)
   \<and> exec st (snd (validateForm cfg st)) = st\<lparr>errors := fst (validateForm cfg st)\<rparr>
   \<and> published (snd (validateForm cfg st)) =
       [deriveKeys (fst (validateForm cfg st)) @ deriveKeys (errors st)]
   \<and> set (concat (published (snd (validateForm cfg st)))) =
       set (deriveKeys (fst (validateForm cfg st))) \<union> set (deriveKeys (errors st))"
  by (simp add: validateForm_def validationErrors_def exec_Cons exec_Nil exec_append
      published_append calls_append split: option.splits)

section \<open>Facts about the helpers and the bags\<close>

lemma segments_not_Nil: "segments p \<noteq> []"
  by (induction p) (auto split: list.splits)

lemma join_path_segments: "join_path (segments p) = p"
proof (induction p)
  case Nil
  show ?case by simp
next
  case (Cons c cs)
  obtain s ss where seg: "segments cs = s # ss"
    using segments_not_Nil [of cs] by (cases "segments cs") auto
  show ?case
  proof (cases "c = CHR ''.''")
    case True
    then show ?thesis using Cons seg by simp
  next
    case False
    then show ?thesis using Cons seg by (cases ss) simp_all
  qed
qed

lemma get_segs_leaf_under:
  "get_segs t ss = Some (Leaf x) \<Longrightarrow>
   (if ss = [] then key else key @ ''.'' @ join_path ss) \<in> set (deriveKeys_under key t)"
proof (induction ss arbitrary: t key)
  case Nil
  then show ?case by simp
next
  case (Cons s ss)
  then obtain kvs where t: "t = Node kvs" by (cases t) auto
  from Cons.prems t obtain child where
    child: "map_of kvs s = Some child" and sub: "get_segs child ss = Some (Leaf x)"
    by (auto split: option.splits)
  have mem: "(s, child) \<in> set kvs" using child by (rule map_of_SomeD)
  have "(if ss = [] then key @ ''.'' @ s else (key @ ''.'' @ s) @ ''.'' @ join_path ss)
          \<in> set (deriveKeys_under (key @ ''.'' @ s) child)"
    using Cons.IH [OF sub] .
  moreover have "(if ss = [] then key @ ''.'' @ s else (key @ ''.'' @ s) @ ''.'' @ join_path ss)
                  = key @ ''.'' @ join_path (s # ss)"
    by (cases ss) simp_all
  ultimately have "key @ ''.'' @ join_path (s # ss) \<in> set (deriveKeys_under (key @ ''.'' @ s) child)"
    by simp
  then show ?case using mem t by force
qed

lemma addresses_leaf_deriveKeys:
  assumes "addresses_leaf t p"
  shows "p \<in> set (deriveKeys t)"
proof -
  from assms obtain x where g: "get_segs t (segments p) = Some (Leaf x)"
    by (auto simp: addresses_leaf_def get_def split: option.splits tree.splits)
  obtain s ss where seg: "segments p = s # ss"
    using segments_not_Nil [of p] by (cases "segments p") auto
  from g seg obtain kvs where t: "t = Node kvs" by (cases t) auto
  from g seg t obtain child where
    child: "map_of kvs s = Some child" and sub: "get_segs child ss = Some (Leaf x)"
    by (auto split: option.splits)
  have mem: "(s, child) \<in> set kvs" using child by (rule map_of_SomeD)
  have "(if ss = [] then s else s @ ''.'' @ join_path ss) \<in> set (deriveKeys_under s child)"
    using get_segs_leaf_under [OF sub] .
  moreover have "(if ss = [] then s else s @ ''.'' @ join_path ss) = join_path (s # ss)"
    by (cases ss) simp_all
  ultimately have "join_path (segments p) \<in> set (deriveKeys_under s child)"
    using seg by simp
  then have "p \<in> set (deriveKeys_under s child)" by (simp add: join_path_segments)
  then show ?thesis using mem t by (force simp: deriveKeys_def)
qed

lemma deriveKeys_under_deriveInitial:
  "deriveKeys_under key (deriveInitial t c) = deriveKeys_under key t"
  by (induction key t rule: deriveKeys_under.induct)
     (auto simp: comp_def intro!: arg_cong [where f = concat])

lemma deriveKeys_deriveInitial: "deriveKeys (deriveInitial t c) = deriveKeys t"
  by (cases t) (auto simp: deriveKeys_def comp_def deriveKeys_under_deriveInitial
      intro!: arg_cong [where f = concat])

lemma all_leaves_deriveInitial: "all_leaves c (deriveInitial t c)"
  by (induction t c rule: deriveInitial.induct) (auto simp: list_all_iff)

lemma calls_error_bag_call: "calls (error_bag b) = []"
  by (cases b) (simp_all add: setFormErr_def)

lemma unhandled_error_bag_call: "unhandled (error_bag b) = []"
  by (cases b) (simp_all add: setFormErr_def)

lemma exec_error_bag_call:
  "values_st (exec st (error_bag b)) = values_st st
   \<and> touched (exec st (error_bag b)) = touched st
   \<and> isSubmitting (exec st (error_bag b)) = isSubmitting st
   \<and> isDirty (exec st (error_bag b)) = isDirty st"
  by (cases b) (simp_all add: setFormErr_def exec_Cons exec_Nil)

lemma calls_error_bag: "calls (concat (map error_bag bs)) = []"
  by (induction bs) (simp_all add: calls_append calls_error_bag_call)

lemma unhandled_error_bag: "unhandled (concat (map error_bag bs)) = []"
  by (induction bs) (simp_all add: unhandled_append unhandled_error_bag_call)

lemma exec_error_bag:
  "values_st (exec st (concat (map error_bag bs))) = values_st st
   \<and> touched (exec st (concat (map error_bag bs))) = touched st
   \<and> isSubmitting (exec st (concat (map error_bag bs))) = isSubmitting st
   \<and> isDirty (exec st (concat (map error_bag bs))) = isDirty st"
  by (induction bs arbitrary: st) (simp_all add: exec_Nil exec_append exec_error_bag_call)

lemma exec_resetForm_isSubmitting:
  "isSubmitting (exec st (resetForm cfg c)) = isSubmitting st"
  by (simp add: resetForm_def exec_Cons exec_Nil exec_append split: option.splits)

lemma unhandled_resetForm: "unhandled (resetForm cfg c) = []"
  by (simp add: resetForm_def unhandled_append split: option.splits)

lemma exec_success_bag_isSubmitting:
  "isSubmitting (exec st (concat (map (success_bag cfg c) bs))) = isSubmitting st"
proof (induction bs arbitrary: st)
  case Nil
  show ?case by (simp add: exec_Nil)
next
  case (Cons b bs)
  show ?case by (cases b) (simp add: exec_append Cons.IH exec_resetForm_isSubmitting)
qed

lemma unhandled_success_bag: "unhandled (concat (map (success_bag cfg c) bs)) = []"
proof (induction bs)
  case Nil
  show ?case by simp
next
  case (Cons b bs)
  then show ?case by (cases b) (simp add: unhandled_append unhandled_resetForm)
qed


lemma exec_validateForm_touched: "touched (exec st (snd (validateForm cfg c))) = touched st"
  by (simp add: validateForm_def exec_append exec_Cons exec_Nil split: option.splits)

lemma unhandled_validateForm: "unhandled (snd (validateForm cfg st)) = []"
  by (simp add: validateForm_def unhandled_append split: option.splits)

lemma unhandled_handleSubmit: "unhandled (fst (handleSubmit cfg st)) = []"
  by (simp add: handleSubmit_def Let_def unhandled_append unhandled_validateForm
      unhandled_error_bag)

lemma scenario_run_value:
  "scenario_run =
    (\<lparr>values_st = Node [(''age'', Leaf (SNum (- 1)))],
     touched = Node [(''age'', Leaf (SBool True))],
     errors = Node [(''age'', Leaf (SStr ''invalid''))],
     isSubmitting = False, formError = None, isDirty = True\<rparr>,
  [Enter FnChange, SetDirty True,
   SetValues (Node [(''age'', Leaf (SNum (- 1)))]), Emit [''age''],
   Enter FnValidateForm, CallValidate (Node [(''age'', Leaf (SNum (- 1)))]),
   SetErrors (Node [(''age'', Leaf (SStr ''invalid''))]), Emit [''age''],
   Enter FnSubmit, SetSubmitting True, Emit [''s''], Enter FnHandleSubmit,
   Enter FnValidateForm, CallValidate (Node [(''age'', Leaf (SNum (- 1)))]),
   SetErrors (Node [(''age'', Leaf (SStr ''invalid''))]),
   Emit [''age'', ''age''],
   SetTouched (Node [(''age'', Leaf (SBool True))]), SetSubmitting False,
   Emit [''s'']])"
  by (simp add: scenario_run_def run_def scenario_def init_def EMPTY_OBJ_def change_def
      validateForm_def validationErrors_def handleSubmit_def submit_def age_validate_def
      get_def set_tree_def deriveKeys_def exec_def Let_def)

text \<open>
  The two effects of the scenario's run do fire: the first edit changes \<open>isDirty.current\<close>
  in the dependency array of the re-validation, and \<open>submit()\<close> changes \<open>isSubmitting\<close>.
\<close>

lemma scenario_revalidates:
  "revalidate_effect scenario (Some (revalidate_deps scenario r (init scenario))) r
     (exec (init scenario) (change (init scenario) ''age'' (Leaf (SNum (- 1)))))
   = snd (validateForm scenario
       (exec (init scenario) (change (init scenario) ''age'' (Leaf (SNum (- 1))))))"
  by (simp add: revalidate_effect_def revalidate_deps_def deps_changed_def scenario_def
      init_def change_def exec_def)

lemma scenario_handles_submit:
  "\<not> isSubmitting st \<Longrightarrow>
   submitting_effect scenario (Some (submitting_deps st)) (exec st (submit None))
   = handleSubmit scenario (exec st (submit None))"
  by (simp add: submitting_effect_def submitting_deps_def deps_changed_def submit_def
      exec_def)

section \<open>Submitting\<close>

text \<open>
  C1 (as amended). A call of \<open>submit()\<close> while \<open>isSubmitting\<close> is true leaves the form
  state as it is, and the effect on \<open>[isSubmitting]\<close> does not run \<open>handleSubmit\<close> again
  after it, so no second submission pass starts. The call is not silent, though: \<open>submit\<close>
  has no guard and calls \<open>emit('s')\<close> every time, so the listeners of the submitting-state
  key are notified once more.
\<close>

theorem submit_while_submitting:
  assumes "isSubmitting st"
  shows "exec st (submit e) = st
   \<and> submitting_effect cfg (Some (submitting_deps st)) (exec st (submit e)) = ([], None)
   \<and> published (submit e) = [[''s'']]
   \<and> notifications registry (submit e) = emit registry [''s'']"
  using assms
  by (simp add: submit_def exec_Cons exec_Nil submitting_effect_def submitting_deps_def
      deps_changed_def notifications_def)

theorem submit_while_submitting_witness:
  "isSubmitting (exec (init scenario) (submit None))
   \<and> exec (exec (init scenario) (submit None)) (submit (Some True))
       = exec (init scenario) (submit None)
   \<and> submitting_effect scenario
        (Some (submitting_deps (exec (init scenario) (submit None))))
        (exec (exec (init scenario) (submit None)) (submit (Some True))) = ([], None)
   \<and> published (submit (Some True)) = [[''s'']]"
proof -
  have inflight: "isSubmitting (exec (init scenario) (submit None))"
    by (simp add: submit_def exec_Cons exec_Nil)
  from inflight
    submit_while_submitting [OF inflight, of "Some True" scenario "[]::(interest \<times> nat) list"]
  show ?thesis by blast
qed

text \<open>
  The claim as stated fails: with a submission in flight, a second \<open>submit()\<close> notifies
  a listener registered on the submitting-state key.
\<close>

theorem submit_while_submitting_counterexample:
  "isSubmitting (exec (init scenario) (submit None))
   \<and> notifications [(OnPath ''s'', 0::nat)] (submit None) = [0]"
  by (simp add: submit_def exec_Cons exec_Nil notifications_def emit_def)



section \<open>Resetting\<close>




text \<open>
  C10. Without \<open>initialErrors\<close>, \<open>resetForm()\<close> leaves \<open>errors\<close> and \<open>touched\<close> as they were:
  the state after it differs from the state before only in \<open>values\<close> and \<open>isDirty\<close>, and the
  one \<open>emit\<close> publishes the leaf paths of the values.
\<close>

theorem resetForm_without_initialErrors:
  assumes "initialErrors cfg = None"
  shows "errors (exec st (resetForm cfg st)) = errors st
   \<and> touched (exec st (resetForm cfg st)) = touched st
   \<and> exec st (resetForm cfg st) =
       st\<lparr>values_st := (case initialValues cfg of None \<Rightarrow> EMPTY_OBJ | Some iv \<Rightarrow> iv),
          isDirty := False\<rparr>
   \<and> published (resetForm cfg st) =
       [deriveKeys (case initialValues cfg of None \<Rightarrow> EMPTY_OBJ | Some iv \<Rightarrow> iv)
        @ deriveKeys (values_st st)]"
  using assms by (simp add: resetForm_def exec_Cons exec_Nil)

theorem resetForm_without_initialErrors_witness:
  "initialErrors scenario = None
   \<and> errors (exec (fst scenario_run) (resetForm scenario (fst scenario_run)))
       = Node [(''age'', Leaf (SStr ''invalid''))]
   \<and> touched (exec (fst scenario_run) (resetForm scenario (fst scenario_run)))
       = Node [(''age'', Leaf (SBool True))]
   \<and> values_st (exec (fst scenario_run) (resetForm scenario (fst scenario_run))) = Node []
   \<and> isDirty (exec (fst scenario_run) (resetForm scenario (fst scenario_run))) = False"
proof -
  have none: "initialErrors scenario = None"
    by (simp add: scenario_def)
  have iv: "initialValues scenario = None"
    by (simp add: scenario_def)
  from none resetForm_without_initialErrors [OF none, of "fst scenario_run"]
  show ?thesis by (simp add: iv scenario_run_value EMPTY_OBJ_def)
qed

section \<open>The promise chain of a submission\<close>

lemma catch_callback_isSubmitting:
  "isSubmitting (exec st (catch_callback cfg e)) = False"
  by (simp add: catch_callback_def exec_append exec_Cons exec_Nil exec_error_bag
      split: option.splits)

lemma then_callback_isSubmitting:
  "isSubmitting (exec st (then_callback cfg c r)) = False"
  by (simp add: then_callback_def exec_append exec_Cons exec_Nil exec_success_bag_isSubmitting
      catch_callback_isSubmitting split: option.splits)

lemma unhandled_catch_callback:
  "x \<in> set (unhandled (catch_callback cfg e)) \<Longrightarrow> \<exists>h e'. onError cfg = Some h \<and> snd (h e') = Some x"
  by (auto simp: catch_callback_def unhandled_append unhandled_error_bag split: option.splits)

lemma unhandled_then_callback:
  assumes "x \<in> set (unhandled (then_callback cfg c r))"
  shows "\<exists>h e'. onError cfg = Some h \<and> snd (h e') = Some x"
proof -
  from assms obtain y where "x \<in> set (unhandled (catch_callback cfg y))"
    by (auto simp: then_callback_def unhandled_append unhandled_success_bag
        split: option.splits)
  then show ?thesis by (rule unhandled_catch_callback)
qed

lemma unhandled_settle:
  assumes "x \<in> set (unhandled (settle cfg c outcome))"
  shows "\<exists>h e'. onError cfg = Some h \<and> snd (h e') = Some x"
proof (cases outcome)
  case (Returns r)
  with assms have "x \<in> set (unhandled (then_callback cfg c r))" by simp
  then show ?thesis by (rule unhandled_then_callback)
next
  case (Resolves r)
  with assms have "x \<in> set (unhandled (then_callback cfg c r))" by simp
  then show ?thesis by (rule unhandled_then_callback)
next
  case (Throws e)
  with assms have "x \<in> set (unhandled (catch_callback cfg e))" by simp
  then show ?thesis by (rule unhandled_catch_callback)
next
  case (Rejects e)
  with assms have "x \<in> set (unhandled (catch_callback cfg e))" by simp
  then show ?thesis by (rule unhandled_catch_callback)
next
  case NeverSettles
  with assms show ?thesis by simp
qed

text \<open>
  C3. Whatever the outcome of \<open>onSubmit\<close>, the promise chain handles it: a returned value
  and a resolved promise are treated alike, and so are a thrown exception and a rejected
  promise. In both branches the chain first calls \<open>setSubmitting(false)\<close> and \<open>emit('s')\<close> and
  then, if the hook is supplied, calls \<open>onSuccess\<close> with the result and a bag whose \<open>resetForm\<close>
  runs \<open>resetForm\<close>, or \<open>onError\<close> with the error and a bag whose \<open>setErrors\<close> sets the errors
  and whose \<open>setFormError\<close> sets the form error and publishes its key. Once the outcome is
  there \<open>isSubmitting\<close> is false. The failure of \<open>onSubmit\<close> does not leave \<open>handleSubmit\<close>:
  the promise it returns rejects only with an exception that the \<open>onError\<close> hook itself has
  thrown.
\<close>

theorem submit_outcome_settled:
  "settle cfg c (Returns r) = settle cfg c (Resolves r)
   \<and> settle cfg c (Throws e) = settle cfg c (Rejects e)
   \<and> settle cfg c (Resolves r) =
       [SetSubmitting False, Emit [''s'']]
       @ (case onSuccess cfg of None \<Rightarrow> []
          | Some hook \<Rightarrow>
              CallOnSuccess r # concat (map (success_bag cfg c) (fst (hook r)))
              @ (case snd (hook r) of None \<Rightarrow> [] | Some x \<Rightarrow> settle cfg c (Rejects x)))
   \<and> settle cfg c (Rejects e) =
       [SetSubmitting False, Emit [''s'']]
       @ (case onError cfg of None \<Rightarrow> []
          | Some hook \<Rightarrow>
              CallOnError e # concat (map error_bag (fst (hook e)))
              @ (case snd (hook e) of None \<Rightarrow> [] | Some x \<Rightarrow> [Unhandled x]))
   \<and> success_bag cfg c CallResetForm = resetForm cfg c
   \<and> error_bag (CallSetErrors t) = [SetErrors t]
   \<and> error_bag (CallSetFormError m) = [Enter FnSetFormErr, SetFormError m, Emit [''f'']]
   \<and> (outcome \<noteq> NeverSettles \<longrightarrow> isSubmitting (exec st (settle cfg c outcome)) = False)
   \<and> (x \<in> set (unhandled (submission cfg st)) \<longrightarrow>
        (\<exists>hook e'. onError cfg = Some hook \<and> snd (hook e') = Some x))"
proof -
  have flag: "outcome \<noteq> NeverSettles \<longrightarrow> isSubmitting (exec st (settle cfg c outcome)) = False"
    by (cases outcome) (simp_all add: then_callback_isSubmitting catch_callback_isSubmitting)
  have contained: "x \<in> set (unhandled (submission cfg st)) \<longrightarrow>
        (\<exists>hook e'. onError cfg = Some hook \<and> snd (hook e') = Some x)"
  proof
    assume "x \<in> set (unhandled (submission cfg st))"
    then obtain outcome where "x \<in> set (unhandled (settle cfg st outcome))"
      by (auto simp: submission_def unhandled_append unhandled_handleSubmit
          split: option.splits)
    then show "\<exists>hook e'. onError cfg = Some hook \<and> snd (hook e') = Some x"
      by (rule unhandled_settle)
  qed
  have shape: "settle cfg c (Returns r) = settle cfg c (Resolves r)
   \<and> settle cfg c (Throws e) = settle cfg c (Rejects e)
   \<and> settle cfg c (Resolves r) =
       [SetSubmitting False, Emit [''s'']]
       @ (case onSuccess cfg of None \<Rightarrow> []
          | Some hook \<Rightarrow>
              CallOnSuccess r # concat (map (success_bag cfg c) (fst (hook r)))
              @ (case snd (hook r) of None \<Rightarrow> [] | Some x \<Rightarrow> settle cfg c (Rejects x)))
   \<and> settle cfg c (Rejects e) =
       [SetSubmitting False, Emit [''s'']]
       @ (case onError cfg of None \<Rightarrow> []
          | Some hook \<Rightarrow>
              CallOnError e # concat (map error_bag (fst (hook e)))
              @ (case snd (hook e) of None \<Rightarrow> [] | Some x \<Rightarrow> [Unhandled x]))
   \<and> success_bag cfg c CallResetForm = resetForm cfg c
   \<and> error_bag (CallSetErrors t) = [SetErrors t]
   \<and> error_bag (CallSetFormError m) = [Enter FnSetFormErr, SetFormError m, Emit [''f'']]"
    by (simp add: then_callback_def catch_callback_def setFormErr_def split: option.splits)
  from shape flag contained show ?thesis by blast
qed

theorem submit_outcome_settled_witness:
  "Rejects (Leaf (SStr ''network down'')) \<noteq> NeverSettles
   \<and> isSubmitting (exec ((init rejecting)\<lparr>isSubmitting := True\<rparr>)
        (settle rejecting (init rejecting) (Rejects (Leaf (SStr ''network down''))))) = False
   \<and> Leaf (SStr ''network down'') \<in> set (unhandled (submission rejecting (init rejecting)))
   \<and> (\<exists>hook e'. onError rejecting = Some hook \<and> snd (hook e') = Some (Leaf (SStr ''network down'')))
   \<and> settle rejecting (init rejecting) (Throws (Leaf (SStr ''network down''))) =
       [SetSubmitting False, Emit [''s''], CallOnError (Leaf (SStr ''network down'')),
        Enter FnSetFormErr, SetFormError ''network down'', Emit [''f''],
        Unhandled (Leaf (SStr ''network down''))]"
proof -
  have settles: "Rejects (Leaf (SStr ''network down'')) \<noteq> NeverSettles"
    by simp
  have escapes: "Leaf (SStr ''network down'') \<in> set (unhandled (submission rejecting (init rejecting)))"
    by (simp add: submission_def handleSubmit_def validateForm_def validationErrors_def
        rejecting_def init_def EMPTY_OBJ_def deriveKeys_def catch_callback_def setFormErr_def
        Let_def)
  have hook: "onError rejecting = Some (\<lambda>e. ([CallSetFormError ''network down''], Some e))"
    by (simp add: rejecting_def)
  note facts = submit_outcome_settled [where cfg = rejecting and c = "init rejecting"
      and e = "Leaf (SStr ''network down'')"
      and outcome = "Rejects (Leaf (SStr ''network down''))"
      and st = "(init rejecting)\<lparr>isSubmitting := True\<rparr>"
      and x = "Leaf (SStr ''network down'')"]
  note whole = submit_outcome_settled [where cfg = rejecting and st = "init rejecting"
      and x = "Leaf (SStr ''network down'')"]
  from settles facts
  have flag: "isSubmitting (exec ((init rejecting)\<lparr>isSubmitting := True\<rparr>)
        (settle rejecting (init rejecting) (Rejects (Leaf (SStr ''network down''))))) = False"
    by blast
  from escapes whole
  have thrower: "\<exists>hook e'. onError rejecting = Some hook
      \<and> snd (hook e') = Some (Leaf (SStr ''network down''))"
    by blast
  from facts
  have shape: "settle rejecting (init rejecting) (Throws (Leaf (SStr ''network down''))) =
       [SetSubmitting False, Emit [''s'']]
       @ (case onError rejecting of None \<Rightarrow> []
          | Some hook \<Rightarrow>
              CallOnError (Leaf (SStr ''network down''))
              # concat (map error_bag (fst (hook (Leaf (SStr ''network down'')))))
              @ (case snd (hook (Leaf (SStr ''network down''))) of None \<Rightarrow> []
                 | Some x \<Rightarrow> [Unhandled x]))"
    by simp
  have chain: "settle rejecting (init rejecting) (Throws (Leaf (SStr ''network down''))) =
       [SetSubmitting False, Emit [''s''], CallOnError (Leaf (SStr ''network down'')),
        Enter FnSetFormErr, SetFormError ''network down'', Emit [''f''],
        Unhandled (Leaf (SStr ''network down''))]"
    by (simp only: shape hook) (simp add: setFormErr_def)
  from settles flag escapes thrower chain show ?thesis by blast
qed

section \<open>Automatic re-validation\<close>

text \<open>
  C8. The effect of lines 158-169, after a render whose previous render had the
  dependencies of \<open>r0\<close> and \<open>st0\<close>. With \<open>validateOnBlur\<close> undefined or true it runs
  \<open>validateForm\<close> when the \<open>touched\<close> object has changed; with \<open>validateOnChange\<close> true it runs
  \<open>validateForm\<close> when the \<open>values\<close> object has changed; both only when \<open>isDirty\<close> is true. With
  \<open>validateOnBlur\<close> false and \<open>validateOnChange\<close> falsy it never runs \<open>validateForm\<close>, and
  without \<open>isDirty\<close> it never does. The two flags are separate: with \<open>validateOnBlur\<close> false a
  change of \<open>touched\<close> alone does nothing, and with \<open>validateOnChange\<close> falsy a change of
  \<open>values\<close> alone does nothing.
\<close>

theorem revalidation_trigger:
  "((validateOnBlur cfg = None \<or> validateOnBlur cfg = Some True)
      \<and> touched_ref r \<noteq> touched_ref r0 \<and> isDirty st \<longrightarrow>
      revalidate_effect cfg (Some (revalidate_deps cfg r0 st0)) r st = snd (validateForm cfg st))
   \<and> (validateOnChange cfg = Some True \<and> values_ref r \<noteq> values_ref r0 \<and> isDirty st \<longrightarrow>
      revalidate_effect cfg (Some (revalidate_deps cfg r0 st0)) r st = snd (validateForm cfg st))
   \<and> (validateOnBlur cfg = Some False \<and> \<not> truthy (validateOnChange cfg) \<longrightarrow>
      revalidate_effect cfg prev r st = [])
   \<and> (\<not> isDirty st \<longrightarrow> revalidate_effect cfg prev r st = [])
   \<and> (validateOnBlur cfg = Some False \<and> values_ref r = values_ref r0
        \<and> isDirty st = isDirty st0 \<longrightarrow>
      revalidate_effect cfg (Some (revalidate_deps cfg r0 st0)) r st = [])
   \<and> (\<not> truthy (validateOnChange cfg) \<and> touched_ref r = touched_ref r0
        \<and> isDirty st = isDirty st0 \<longrightarrow>
      revalidate_effect cfg (Some (revalidate_deps cfg r0 st0)) r st = [])"
  by (auto simp: revalidate_effect_def revalidate_deps_def deps_changed_def
      split: option.splits)

theorem revalidation_trigger_witness:
  "validateOnBlur scenario = None
   \<and> isDirty ((init scenario)\<lparr>isDirty := True\<rparr>)
   \<and> revalidate_effect scenario
        (Some (revalidate_deps scenario \<lparr>values_ref = 0, touched_ref = 0, initialValues_ref = 0\<rparr>
                 ((init scenario)\<lparr>isDirty := True\<rparr>)))
        \<lparr>values_ref = 0, touched_ref = 1, initialValues_ref = 0\<rparr>
        ((init scenario)\<lparr>isDirty := True\<rparr>)
       = snd (validateForm scenario ((init scenario)\<lparr>isDirty := True\<rparr>))
   \<and> revalidate_effect (scenario\<lparr>validateOnBlur := Some False, validateOnChange := Some True\<rparr>)
        (Some (revalidate_deps (scenario\<lparr>validateOnBlur := Some False, validateOnChange := Some True\<rparr>)
                 \<lparr>values_ref = 0, touched_ref = 0, initialValues_ref = 0\<rparr>
                 ((init scenario)\<lparr>isDirty := True\<rparr>)))
        \<lparr>values_ref = 1, touched_ref = 0, initialValues_ref = 0\<rparr>
        ((init scenario)\<lparr>isDirty := True\<rparr>)
       = snd (validateForm (scenario\<lparr>validateOnBlur := Some False, validateOnChange := Some True\<rparr>)
               ((init scenario)\<lparr>isDirty := True\<rparr>))
   \<and> revalidate_effect (scenario\<lparr>validateOnBlur := Some False\<rparr>) None
        \<lparr>values_ref = 1, touched_ref = 1, initialValues_ref = 0\<rparr>
        ((init scenario)\<lparr>isDirty := True\<rparr>) = []
   \<and> \<not> isDirty (init scenario)
   \<and> revalidate_effect scenario None
        \<lparr>values_ref = 0, touched_ref = 0, initialValues_ref = 0\<rparr> (init scenario) = []
   \<and> revalidate_effect (scenario\<lparr>validateOnBlur := Some False, validateOnChange := Some True\<rparr>)
        (Some (revalidate_deps (scenario\<lparr>validateOnBlur := Some False, validateOnChange := Some True\<rparr>)
                 \<lparr>values_ref = 0, touched_ref = 0, initialValues_ref = 0\<rparr>
                 ((init scenario)\<lparr>isDirty := True\<rparr>)))
        \<lparr>values_ref = 0, touched_ref = 1, initialValues_ref = 0\<rparr>
        ((init scenario)\<lparr>isDirty := True\<rparr>) = []
   \<and> revalidate_effect scenario
        (Some (revalidate_deps scenario \<lparr>values_ref = 0, touched_ref = 0, initialValues_ref = 0\<rparr>
                 ((init scenario)\<lparr>isDirty := True\<rparr>)))
        \<lparr>values_ref = 1, touched_ref = 0, initialValues_ref = 0\<rparr>
        ((init scenario)\<lparr>isDirty := True\<rparr>) = []"
proof -
  let ?dirty = "(init scenario)\<lparr>isDirty := True\<rparr>"
  let ?change_only = "scenario\<lparr>validateOnBlur := Some False, validateOnChange := Some True\<rparr>"
  let ?r0 = "\<lparr>values_ref = 0, touched_ref = 0, initialValues_ref = 0\<rparr>"
  let ?touched_changed = "\<lparr>values_ref = 0, touched_ref = 1, initialValues_ref = 0\<rparr>"
  let ?values_changed = "\<lparr>values_ref = 1, touched_ref = 0, initialValues_ref = 0\<rparr>"
  have blur_default: "validateOnBlur scenario = None" and no_change: "\<not> truthy (validateOnChange scenario)"
    by (simp_all add: scenario_def)
  have change_only: "validateOnBlur ?change_only = Some False" "validateOnChange ?change_only = Some True"
    by simp_all
  have neither: "validateOnBlur (scenario\<lparr>validateOnBlur := Some False\<rparr>) = Some False"
    "\<not> truthy (validateOnChange (scenario\<lparr>validateOnBlur := Some False\<rparr>))"
    by (simp_all add: scenario_def)
  have dirty: "isDirty ?dirty" and clean: "\<not> isDirty (init scenario)"
    by (simp_all add: init_def)
  have moved: "touched_ref ?touched_changed \<noteq> touched_ref ?r0"
    "values_ref ?values_changed \<noteq> values_ref ?r0"
    "touched_ref ?values_changed = touched_ref ?r0"
    "values_ref ?touched_changed = values_ref ?r0"
    by simp_all
  have on_blur: "revalidate_effect scenario (Some (revalidate_deps scenario ?r0 ?dirty))
      ?touched_changed ?dirty = snd (validateForm scenario ?dirty)"
    using blur_default moved(1) dirty
      revalidation_trigger [where cfg = scenario
        and r = ?touched_changed
        and r0 = ?r0
        and st = ?dirty
        and st0 = ?dirty
        and prev = None]
    by blast
  have on_change: "revalidate_effect ?change_only (Some (revalidate_deps ?change_only ?r0 ?dirty))
      ?values_changed ?dirty = snd (validateForm ?change_only ?dirty)"
    using change_only(2) moved(2) dirty
      revalidation_trigger [where cfg = ?change_only
        and r = ?values_changed
        and r0 = ?r0
        and st = ?dirty
        and st0 = ?dirty
        and prev = None]
    by blast
  have never: "revalidate_effect (scenario\<lparr>validateOnBlur := Some False\<rparr>) None
      \<lparr>values_ref = 1, touched_ref = 1, initialValues_ref = 0\<rparr> ?dirty = []"
    using neither
      revalidation_trigger [where cfg = "scenario\<lparr>validateOnBlur := Some False\<rparr>"
        and r = "\<lparr>values_ref = 1, touched_ref = 1, initialValues_ref = 0\<rparr>"
        and r0 = ?r0
        and st = ?dirty
        and st0 = ?dirty
        and prev = None]
    by blast
  have not_dirty: "revalidate_effect scenario None ?r0 (init scenario) = []"
    using clean revalidation_trigger [where cfg = scenario
        and r = ?r0
        and r0 = ?r0
        and st = "init scenario"
        and st0 = "init scenario"
        and prev = None]
    by blast
  have blur_off: "revalidate_effect ?change_only (Some (revalidate_deps ?change_only ?r0 ?dirty))
      ?touched_changed ?dirty = []"
    using change_only(1) moved(4)
      revalidation_trigger [where cfg = ?change_only
        and r = ?touched_changed
        and r0 = ?r0
        and st = ?dirty
        and st0 = ?dirty
        and prev = None]
    by blast
  have change_off: "revalidate_effect scenario (Some (revalidate_deps scenario ?r0 ?dirty))
      ?values_changed ?dirty = []"
    using no_change moved(3)
      revalidation_trigger [where cfg = scenario
        and r = ?values_changed
        and r0 = ?r0
        and st = ?dirty
        and st0 = ?dirty
        and prev = None]
    by blast
  from blur_default dirty on_blur on_change never clean not_dirty blur_off change_off
  show ?thesis by blast
qed

section \<open>Touched marks after a submission attempt\<close>

lemma exec_resetForm_touched:
  "initialErrors cfg = None \<Longrightarrow> touched (exec st (resetForm cfg c)) = touched st"
  by (simp add: resetForm_def exec_Cons exec_Nil)

lemma exec_success_bag_touched:
  "initialErrors cfg = None \<Longrightarrow>
   touched (exec st (concat (map (success_bag cfg c) bs))) = touched st"
proof (induction bs arbitrary: st)
  case Nil
  show ?case by (simp add: exec_Nil)
next
  case (Cons b bs)
  then show ?case by (cases b) (simp add: exec_append exec_resetForm_touched)
qed

lemma exec_catch_callback_touched: "touched (exec st (catch_callback cfg e)) = touched st"
  by (simp add: catch_callback_def exec_append exec_Cons exec_Nil exec_error_bag
      split: option.splits)

lemma exec_then_callback_touched:
  "initialErrors cfg = None \<Longrightarrow> touched (exec st (then_callback cfg c r)) = touched st"
  by (simp add: then_callback_def exec_append exec_Cons exec_Nil exec_success_bag_touched
      exec_catch_callback_touched split: option.splits)

lemma exec_settle_touched:
  "initialErrors cfg = None \<Longrightarrow> touched (exec st (settle cfg c outcome)) = touched st"
  by (cases outcome)
     (simp_all add: exec_then_callback_touched exec_catch_callback_touched exec_Nil)

lemma exec_handleSubmit_touched:
  "touched (exec st (fst (handleSubmit cfg st))) =
     deriveInitial (fst (validateForm cfg st)) (SBool True)"
  by (simp add: handleSubmit_def Let_def exec_append exec_Cons exec_Nil exec_error_bag)

text \<open>
  C9. Every run of \<open>handleSubmit\<close>, blocked or not, replaces \<open>touched\<close> with the tree that has
  the leaf paths of the freshly computed error tree and \<open>true\<close> at every leaf. So a path
  without a current validation error addresses no leaf of \<open>touched\<close> when \<open>handleSubmit\<close>
  returns, whatever \<open>touched\<close> held before. The promise chain does not change \<open>touched\<close>
  afterwards, unless \<open>initialErrors\<close> is supplied and the \<open>onSuccess\<close> hook calls \<open>resetForm\<close>.
\<close>

theorem handleSubmit_replaces_touched:
  "touched (exec st (fst (handleSubmit cfg st))) =
     deriveInitial (fst (validateForm cfg st)) (SBool True)
   \<and> deriveKeys (touched (exec st (fst (handleSubmit cfg st)))) =
       deriveKeys (fst (validateForm cfg st))
   \<and> all_leaves (SBool True) (touched (exec st (fst (handleSubmit cfg st))))
   \<and> (p \<notin> set (deriveKeys (fst (validateForm cfg st))) \<longrightarrow>
        p \<notin> set (deriveKeys (touched (exec st (fst (handleSubmit cfg st)))))
        \<and> \<not> addresses_leaf (touched (exec st (fst (handleSubmit cfg st)))) p)
   \<and> (initialErrors cfg = None \<longrightarrow>
        touched (exec st (submission cfg st)) =
          deriveInitial (fst (validateForm cfg st)) (SBool True))"
proof -
  have replaced: "touched (exec st (fst (handleSubmit cfg st))) =
      deriveInitial (fst (validateForm cfg st)) (SBool True)"
    by (rule exec_handleSubmit_touched)
  have paths: "deriveKeys (touched (exec st (fst (handleSubmit cfg st)))) =
      deriveKeys (fst (validateForm cfg st))"
    by (simp add: replaced deriveKeys_deriveInitial)
  have marks: "all_leaves (SBool True) (touched (exec st (fst (handleSubmit cfg st))))"
    by (simp add: replaced all_leaves_deriveInitial)
  have gone: "p \<notin> set (deriveKeys (fst (validateForm cfg st))) \<longrightarrow>
        p \<notin> set (deriveKeys (touched (exec st (fst (handleSubmit cfg st)))))
        \<and> \<not> addresses_leaf (touched (exec st (fst (handleSubmit cfg st)))) p"
    using paths addresses_leaf_deriveKeys by metis
  have after: "initialErrors cfg = None \<longrightarrow>
        touched (exec st (submission cfg st)) =
          deriveInitial (fst (validateForm cfg st)) (SBool True)"
    by (simp add: submission_def exec_append exec_Nil exec_settle_touched replaced
        split: option.splits)
  from replaced paths marks gone after show ?thesis by blast
qed

theorem handleSubmit_replaces_touched_witness:
  "addresses_leaf (touched ((init scenario)\<lparr>touched := Node [(''name'', Leaf (SBool True))]\<rparr>)) ''name''
   \<and> ''name'' \<notin> set (deriveKeys (fst (validateForm scenario
        ((init scenario)\<lparr>touched := Node [(''name'', Leaf (SBool True))]\<rparr>))))
   \<and> \<not> addresses_leaf (touched (exec ((init scenario)\<lparr>touched := Node [(''name'', Leaf (SBool True))]\<rparr>)
        (fst (handleSubmit scenario
          ((init scenario)\<lparr>touched := Node [(''name'', Leaf (SBool True))]\<rparr>))))) ''name''
   \<and> initialErrors scenario = None
   \<and> touched (exec ((init scenario)\<lparr>touched := Node [(''name'', Leaf (SBool True))]\<rparr>)
        (submission scenario ((init scenario)\<lparr>touched := Node [(''name'', Leaf (SBool True))]\<rparr>)))
       = Node []"
proof -
  let ?st = "(init scenario)\<lparr>touched := Node [(''name'', Leaf (SBool True))]\<rparr>"
  have before: "addresses_leaf (touched ?st) ''name''"
    by (simp add: addresses_leaf_def get_def)
  have tree: "fst (validateForm scenario ?st) = Node []"
    by (simp add: validateForm_def validationErrors_def scenario_def init_def EMPTY_OBJ_def
        age_validate_def get_def)
  have no_error: "''name'' \<notin> set (deriveKeys (fst (validateForm scenario ?st)))"
    by (simp only: tree) (simp add: deriveKeys_def)
  have seed: "initialErrors scenario = None"
    by (simp add: scenario_def)
  note facts = handleSubmit_replaces_touched [where cfg = scenario and st = ?st and p = "''name''"]
  from no_error facts
  have gone: "\<not> addresses_leaf (touched (exec ?st (fst (handleSubmit scenario ?st)))) ''name''"
    by blast
  from seed facts
  have "touched (exec ?st (submission scenario ?st)) =
      deriveInitial (fst (validateForm scenario ?st)) (SBool True)"
    by blast
  then have after: "touched (exec ?st (submission scenario ?st)) = Node []"
    by (simp only: tree) simp
  from before no_error gone seed after show ?thesis by blast
qed

section \<open>The dirty flag along a run\<close>

lemma exec_resetForm_isDirty: "isDirty (exec st (resetForm cfg c)) = False"
  by (simp add: resetForm_def exec_append exec_Cons exec_Nil split: option.splits)

lemma exec_success_bag_isDirty:
  "isDirty (exec st (concat (map (success_bag cfg c) bs))) =
     (if bs = [] then isDirty st else False)"
proof (induction bs rule: rev_induct)
  case Nil
  show ?case by (simp add: exec_Nil)
next
  case (snoc b bs)
  show ?case by (cases b) (simp add: exec_append exec_resetForm_isDirty)
qed

lemma exec_validateForm_isDirty: "isDirty (exec st (snd (validateForm cfg c))) = isDirty st"
  by (simp add: validateForm_def exec_append exec_Cons exec_Nil split: option.splits)

lemma exec_catch_callback_isDirty: "isDirty (exec st (catch_callback cfg e)) = isDirty st"
  by (simp add: catch_callback_def exec_append exec_Cons exec_Nil exec_error_bag
      split: option.splits)

lemma exec_then_callback_isDirty:
  "isDirty (exec st (then_callback cfg c r)) =
     (if hook_resets cfg r then False else isDirty st)"
  by (simp add: then_callback_def hook_resets_def exec_append exec_Cons exec_Nil
      exec_success_bag_isDirty exec_catch_callback_isDirty split: option.splits)

lemma exec_handleSubmit_isDirty: "isDirty (exec st (fst (handleSubmit cfg c))) = isDirty st"
  by (simp add: handleSubmit_def Let_def exec_append exec_Cons exec_Nil exec_error_bag
      exec_validateForm_isDirty)

lemma exec_perform_isDirty:
  "isDirty (exec st (perform cfg st a)) =
     (if calls_resetForm cfg a then False else if calls_change a then True else isDirty st)"
proof (cases a)
  case (DoChange fieldId v)
  then show ?thesis by (simp add: change_def exec_Cons exec_Nil)
next
  case (DoSetFieldError fieldId error)
  then show ?thesis by (simp add: setFieldError_def exec_Cons exec_Nil)
next
  case (DoSetFieldTouched fieldId v)
  then show ?thesis by (simp add: setFieldTouched_def exec_Cons exec_Nil)
next
  case (DoSubmit e)
  then show ?thesis by (simp add: submit_def exec_append exec_Cons exec_Nil)
next
  case DoResetForm
  then show ?thesis by (simp add: exec_resetForm_isDirty)
next
  case DoValidateForm
  then show ?thesis by (simp add: exec_validateForm_isDirty)
next
  case DoHandleSubmit
  then show ?thesis by (simp add: exec_handleSubmit_isDirty)
next
  case (DoSettle c outcome)
  then show ?thesis
    by (cases outcome)
       (simp_all add: exec_then_callback_isDirty exec_catch_callback_isDirty exec_Nil)
next
  case (DoErrorBag b)
  then show ?thesis by (simp add: exec_error_bag_call)
qed

lemma run_snoc: "run cfg (steps @ [x]) = step (run cfg steps) x"
  by (simp add: run_def)

lemma isDirty_run_snoc:
  "isDirty (fst (run cfg (steps @ [(cfg', a)]))) =
     (if calls_resetForm cfg' a then False
      else if calls_change a then True
      else isDirty (fst (run cfg steps)))"
proof -
  obtain st history where r: "run cfg steps = (st, history)"
    by (cases "run cfg steps")
  show ?thesis by (simp add: run_snoc r exec_perform_isDirty)
qed

lemma calls_change_not_resetForm: "calls_change a \<Longrightarrow> \<not> calls_resetForm cfg a"
  by (cases a) simp_all

text \<open>
  C7. Along every run of a form instance, whatever the props of each step, \<open>isDirty\<close> is true
  exactly when some step has called \<open>change\<close> (\<open>changeField\<close>, \<open>setFieldValue\<close>) and no later step
  has called \<open>resetForm\<close>. The calls of \<open>resetForm\<close> counted are all of them: by a consumer,
  by the effect of \<open>enableReinitialize\<close>, and by an \<open>onSuccess\<close> hook through its bag.
\<close>

theorem isDirty_iff_changed_since_reset:
  "isDirty (fst (run cfg steps)) \<longleftrightarrow>
     (\<exists>pre x post. steps = pre @ x # post \<and> calls_change (snd x)
        \<and> \<not> list_ex (\<lambda>y. calls_resetForm (fst y) (snd y)) post)"
proof (induction steps rule: rev_induct)
  case Nil
  show ?case by (simp add: run_def init_def)
next
  case (snoc s steps)
  obtain cfg' a where s: "s = (cfg', a)" by (cases s)
  let ?resets = "\<lambda>y. calls_resetForm (fst y) (snd y)"
  let ?before = "\<exists>pre x post. steps = pre @ x # post \<and> calls_change (snd x)
      \<and> \<not> list_ex ?resets post"
  let ?now = "\<exists>pre x post. steps @ [s] = pre @ x # post \<and> calls_change (snd x)
      \<and> \<not> list_ex ?resets post"
  have now_iff: "?now \<longleftrightarrow> \<not> calls_resetForm cfg' a \<and> (calls_change a \<or> ?before)"
  proof
    assume ?now
    then obtain pre x post where eq: "steps @ [s] = pre @ x # post"
      and change: "calls_change (snd x)" and free: "\<not> list_ex ?resets post" by blast
    show "\<not> calls_resetForm cfg' a \<and> (calls_change a \<or> ?before)"
    proof (cases "post = []")
      case True
      with eq have "x = s" by simp
      with change s have "calls_change a" by simp
      then show ?thesis using calls_change_not_resetForm by blast
    next
      case False
      then obtain post' where post: "post = post' @ [last post]"
        using append_butlast_last_id [of post] by metis
      from eq post have "steps @ [s] = (pre @ x # post') @ [last post]"
        by (metis append.assoc append_Cons)
      then have steps: "steps = pre @ x # post'" and last: "s = last post" by simp_all
      from free post have "\<not> list_ex ?resets (post' @ [last post])"
        by metis
      then have free': "\<not> list_ex ?resets post'" and "\<not> ?resets (last post)"
        by simp_all
      with last s have "\<not> calls_resetForm cfg' a"
        by (metis fst_conv snd_conv)
      moreover from steps change free' have ?before by blast
      ultimately show ?thesis by simp
    qed
  next
    assume rhs: "\<not> calls_resetForm cfg' a \<and> (calls_change a \<or> ?before)"
    show ?now
    proof (cases "calls_change a")
      case True
      have "steps @ [s] = steps @ s # [] \<and> calls_change (snd s) \<and> \<not> list_ex ?resets []"
        using True s by simp
      then show ?thesis by blast
    next
      case False
      with rhs obtain pre x post where "steps = pre @ x # post" and "calls_change (snd x)"
        and "\<not> list_ex ?resets post" by blast
      with rhs s have "steps @ [s] = pre @ x # (post @ [s]) \<and> calls_change (snd x)
          \<and> \<not> list_ex ?resets (post @ [s])"
        by simp
      then show ?thesis by blast
    qed
  qed
  have "isDirty (fst (run cfg (steps @ [s]))) \<longleftrightarrow>
      \<not> calls_resetForm cfg' a \<and> (calls_change a \<or> isDirty (fst (run cfg steps)))"
    by (simp add: s isDirty_run_snoc)
  also have "\<dots> \<longleftrightarrow> \<not> calls_resetForm cfg' a \<and> (calls_change a \<or> ?before)"
    using snoc.IH by simp
  also have "\<dots> \<longleftrightarrow> ?now"
    using now_iff by simp
  finally show ?case .
qed

theorem isDirty_iff_changed_since_reset_witness:
  "isDirty (fst (run scenario [(scenario, DoChange ''age'' (Leaf (SNum 5)))]))
   \<and> \<not> isDirty (fst (run scenario
        [(scenario, DoChange ''age'' (Leaf (SNum 5))), (seeded, DoResetForm)]))
   \<and> isDirty (fst (run scenario
        [(scenario, DoChange ''age'' (Leaf (SNum 5))), (seeded, DoResetForm),
         (scenario, DoSubmit None), (scenario, DoChange ''age'' (Leaf (SNum 6)))]))
   \<and> \<not> isDirty (fst (run scenario
        [(scenario, DoChange ''age'' (Leaf (SNum 5))),
         (scenario\<lparr>onSuccess := Some (\<lambda>r. ([CallResetForm], None))\<rparr>,
          DoSettle (init scenario) (Resolves (Leaf (SStr ''ok''))))]))"
proof -
  let ?c5 = "(scenario, DoChange ''age'' (Leaf (SNum 5)))"
  let ?c6 = "(scenario, DoChange ''age'' (Leaf (SNum 6)))"
  let ?resets = "\<lambda>y. calls_resetForm (fst y) (snd y)"
  have "[?c5] = [] @ ?c5 # [] \<and> calls_change (snd ?c5) \<and> \<not> list_ex ?resets []"
    by simp
  then have "\<exists>pre x post. [?c5] = pre @ x # post \<and> calls_change (snd x)
      \<and> \<not> list_ex ?resets post"
    by blast
  then have first: "isDirty (fst (run scenario [?c5]))"
    using isDirty_iff_changed_since_reset [of scenario "[?c5]"] by blast
  have "\<not> (\<exists>pre x post. [?c5, (seeded, DoResetForm)] = pre @ x # post \<and> calls_change (snd x)
      \<and> \<not> list_ex ?resets post)"
    by (auto simp: Cons_eq_append_conv)
  then have second: "\<not> isDirty (fst (run scenario [?c5, (seeded, DoResetForm)]))"
    using isDirty_iff_changed_since_reset [of scenario "[?c5, (seeded, DoResetForm)]"] by blast
  have "[?c5, (seeded, DoResetForm), (scenario, DoSubmit None), ?c6]
          = [?c5, (seeded, DoResetForm), (scenario, DoSubmit None)] @ ?c6 # []
        \<and> calls_change (snd ?c6) \<and> \<not> list_ex ?resets []"
    by simp
  then have "\<exists>pre x post. [?c5, (seeded, DoResetForm), (scenario, DoSubmit None), ?c6]
        = pre @ x # post \<and> calls_change (snd x) \<and> \<not> list_ex ?resets post"
    by blast
  then have third: "isDirty (fst (run scenario
      [?c5, (seeded, DoResetForm), (scenario, DoSubmit None), ?c6]))"
    using isDirty_iff_changed_since_reset
      [of scenario "[?c5, (seeded, DoResetForm), (scenario, DoSubmit None), ?c6]"]
    by blast
  let ?settled = "(scenario\<lparr>onSuccess := Some (\<lambda>r. ([CallResetForm], None))\<rparr>,
      DoSettle (init scenario) (Resolves (Leaf (SStr ''ok''))))"
  have "\<not> (\<exists>pre x post. [?c5, ?settled] = pre @ x # post \<and> calls_change (snd x)
      \<and> \<not> list_ex ?resets post)"
    by (auto simp: Cons_eq_append_conv hook_resets_def)
  then have fourth: "\<not> isDirty (fst (run scenario [?c5, ?settled]))"
    using isDirty_iff_changed_since_reset [of scenario "[?c5, ?settled]"] by blast
  from first second third fourth show ?thesis by blast
qed

end
